theory Spec2Isabelle
  imports Main
begin

section \<open>The ETK engine (etk/etk.py)\<close>

text \<open>
  The class \<open>ETK\<close> holds a cache of compiled JSON paths (\<open>self.parsed\<close>), the list
  of extraction modules (\<open>self.em_lst\<close>) and the error policy. Attributes that the
  constructor may leave unassigned are options: reading an unassigned attribute raises
  \<open>AttributeError\<close> in Python. The spaCy objects (\<open>default_nlp\<close>, \<open>default_tokenizer\<close>)
  are external and take no part in the functions below.
\<close>

subsection \<open>Errors and the error policy\<close>

text \<open>
  Modelled from the spec: the enumeration \<open>ErrorPolicy\<close> of etk/etk_exceptions.py, which
  is not among the sources; etk.py uses its four members, which section 4.5 of the
  specification lists as distinct policies.
\<close>

datatype ErrorPolicy = PROCESS | THROW_EXTRACTION | THROW_DOCUMENT | RAISE

datatype etk_error =
    InvalidJsonPathError string
  | NotGetETKModuleError string
  | AttributeError
  | KeyError
  | TypeError
  | ModuleRaised string

subsection \<open>Python string helpers\<close>

text \<open>\<open>str.lower()\<close> on ASCII: the letters A to Z are mapped to a to z.\<close>

definition lower_char :: "char \<Rightarrow> char" where
  "lower_char c =
     (case map_of (zip ''ABCDEFGHIJKLMNOPQRSTUVWXYZ'' ''abcdefghijklmnopqrstuvwxyz'') c of
        Some l \<Rightarrow> l
      | None \<Rightarrow> c)"

definition lower :: "string \<Rightarrow> string" where
  "lower s = map lower_char s"

text \<open>\<open>s.strip(c)\<close> for a single character \<open>c\<close>: drop it from both ends.\<close>

definition strip :: "char \<Rightarrow> string \<Rightarrow> string" where
  "strip c s = rev (dropWhile (\<lambda>x. x = c) (rev (dropWhile (\<lambda>x. x = c) s)))"

subsection \<open>Documents and extraction modules\<close>

text \<open>
  Modelled from the spec: the class \<open>Document\<close> of etk/document.py, which is not among
  the sources. Section 3 of the specification gives its attributes; \<open>process_ems\<close> reads
  only \<open>doc.kg\<close>.
\<close>

record ('r, 'k) document =
  raw :: 'r
  mime_type :: "string option"
  url :: string
  kg :: 'k

text \<open>
  An extraction module (a subclass of \<open>ETKModule\<close>) is given by its two methods. Both
  are user code: either may raise (\<open>Inl\<close> with the exception's name);
  \<open>process_document\<close> mutates the document, so the model returns the document after the
  call. Its return value is ignored by \<open>process_ems\<close>.
\<close>

record ('r, 'k) etk_module =
  document_selector :: "('r, 'k) document \<Rightarrow> string + bool"
  process_document :: "('r, 'k) document \<Rightarrow> string + ('r, 'k) document"

subsection \<open>The engine state\<close>

record ('c, 'r, 'k, 's) etk =
  parser :: "string \<Rightarrow> 'c option"
  parsed :: "string \<rightharpoonup> 'c"
  kg_schema :: 's
  em_lst :: "('r, 'k) etk_module list option"
  error_policy :: "ErrorPolicy option"

subsection \<open>Loading modules\<close>

text \<open>
  \<open>topological_sort\<close> is the static method of lines 143 to 155: its body is the string
  \<open>"TODO"\<close> followed by \<open>return lst\<close>.
\<close>

definition topological_sort :: "('r, 'k) etk_module list \<Rightarrow> ('r, 'k) etk_module list" where
  "topological_sort lst = lst"

text \<open>
  \<open>load_ems\<close>: the directory listing, the imports and the instantiation of the classes
  found are the file system's and the import system's work; \<open>discover\<close> stands for that
  loop, \<open>None\<close> when anything in it raises. The call of \<open>topological_sort\<close> is inside
  a \<open>try\<close>, but \<open>topological_sort\<close> has no raising path.
\<close>

definition load_ems ::
  "(string \<Rightarrow> ('r, 'k) etk_module list option) \<Rightarrow> string \<Rightarrow> etk_error + ('r, 'k) etk_module list"
where
  "load_ems discover modules_path =
     (let modules_path' = strip (CHR ''/'') (strip (CHR ''.'') modules_path) in
      case discover modules_path' of
        None \<Rightarrow> Inl (NotGetETKModuleError ''Wrong file path for ETK modules'')
      | Some found \<Rightarrow>
          (let em_lst' = topological_sort found in
           case em_lst' of
             [] \<Rightarrow> Inl (NotGetETKModuleError
                    ''No ETK module in dir, module file should start with em_, end with .py'')
           | _ # _ \<Rightarrow> Inr em_lst'))"

subsection \<open>The constructor\<close>

text \<open>
  The argument \<open>modules\<close> is dynamically typed: \<open>None\<close> (the default), a string, a
  class that is a subclass of \<open>ETKModule\<close> (given by the instance that calling it
  yields), another class, or any other object (with its truth value: \<open>issubclass\<close>
  raises \<open>TypeError\<close> on a non-class).
\<close>

datatype ('r, 'k) modules_arg =
    PyNone
  | PyStr string
  | ETKModuleSubclass "('r, 'k) etk_module"
  | OtherClass
  | OtherObject bool

definition init_modules ::
  "(string \<Rightarrow> ('r, 'k) etk_module list option) \<Rightarrow> ('r, 'k) modules_arg \<Rightarrow>
   ('c, 'r, 'k, 's) etk \<Rightarrow> etk_error + ('c, 'r, 'k, 's) etk"
where
  "init_modules discover modules e =
     (case modules of
        PyNone \<Rightarrow> Inr e
      | PyStr s \<Rightarrow>
          (if s = [] then Inr e
           else case load_ems discover s of
                  Inl err \<Rightarrow> Inl err
                | Inr ems \<Rightarrow> Inr (e\<lparr>em_lst := Some ems\<rparr>))
      | ETKModuleSubclass m \<Rightarrow> Inr (e\<lparr>em_lst := Some [m]\<rparr>)
      | OtherClass \<Rightarrow> Inl (NotGetETKModuleError ''Not getting extraction module'')
      | OtherObject truthy \<Rightarrow> (if truthy then Inl TypeError else Inr e))"

text \<open>
  Lines 26 to 33: two independent \<open>if\<close> statements, then an \<open>if\<close> with an \<open>else\<close>.
\<close>

definition init_error_policy :: "string \<Rightarrow> ('c, 'r, 'k, 's) etk \<Rightarrow> ('c, 'r, 'k, 's) etk" where
  "init_error_policy extract_error_policy e =
     (let e1 = (if lower extract_error_policy = ''throw_extraction''
                then e\<lparr>error_policy := Some THROW_EXTRACTION\<rparr> else e);
          e2 = (if lower extract_error_policy = ''throw_document''
                then e1\<lparr>error_policy := Some THROW_DOCUMENT\<rparr> else e1)
      in if lower extract_error_policy = ''raise_error''
         then e2\<lparr>error_policy := Some RAISE\<rparr>
         else e2\<lparr>error_policy := Some PROCESS\<rparr>)"

definition ETK_init ::
  "(string \<Rightarrow> 'c option) \<Rightarrow> (string \<Rightarrow> ('r, 'k) etk_module list option) \<Rightarrow>
   's \<Rightarrow> ('r, 'k) modules_arg \<Rightarrow> string \<Rightarrow> etk_error + ('c, 'r, 'k, 's) etk"
where
  "ETK_init jsonpath_ng_parse discover schema modules extract_error_policy =
     (let e0 = \<lparr>parser = jsonpath_ng_parse, parsed = Map.empty, kg_schema = schema,
                em_lst = None, error_policy = None\<rparr>
      in case init_modules discover modules e0 of
           Inl err \<Rightarrow> Inl err
         | Inr e1 \<Rightarrow> Inr (init_error_policy extract_error_policy e1))"

subsection \<open>Compiling JSON paths\<close>

text \<open>\<open>self.parsed[jsonpath]\<close>: a lookup that raises \<open>KeyError\<close> on a missing key.\<close>

definition parsed_getitem ::
  "('c, 'r, 'k, 's) etk \<Rightarrow> string \<Rightarrow> (etk_error + 'c) \<times> ('c, 'r, 'k, 's) etk"
where
  "parsed_getitem e jsonpath =
     (case parsed e jsonpath of None \<Rightarrow> (Inl KeyError, e) | Some c \<Rightarrow> (Inr c, e))"

text \<open>
  \<open>parse_json_path\<close> returns the outcome and the engine after the call. The right-hand
  side of the assignment is evaluated first: when the parser raises, nothing is stored.
\<close>

definition parse_json_path ::
  "('c, 'r, 'k, 's) etk \<Rightarrow> string \<Rightarrow> (etk_error + 'c) \<times> ('c, 'r, 'k, 's) etk"
where
  "parse_json_path e jsonpath =
     (if parsed e jsonpath = None then
        (case parser e jsonpath of
           None \<Rightarrow> (Inl (InvalidJsonPathError ''Invalid Json Path''), e)
         | Some c \<Rightarrow> parsed_getitem (e\<lparr>parsed := (parsed e)(jsonpath \<mapsto> c)\<rparr>) jsonpath)
      else parsed_getitem e jsonpath)"

text \<open>The engine after a sequence of calls, whatever their outcomes.\<close>

fun after_calls :: "('c, 'r, 'k, 's) etk \<Rightarrow> string list \<Rightarrow> ('c, 'r, 'k, 's) etk" where
  "after_calls e [] = e"
| "after_calls e (q # qs) = after_calls (snd (parse_json_path e q)) qs"

subsection \<open>Running the modules\<close>

text \<open>
  The loop of \<open>process_ems\<close>, with a record of the calls it makes: the number is the
  position of the module in \<open>em_lst\<close>.
\<close>

datatype ems_call = CallSelector nat | CallProcess nat

fun run_ems ::
  "nat \<Rightarrow> ('r, 'k) etk_module list \<Rightarrow> ('r, 'k) document \<Rightarrow>
   (etk_error + ('r, 'k) document) \<times> ems_call list"
where
  "run_ems i [] doc = (Inr doc, [])"
| "run_ems i (a_em # rest) doc =
     (case document_selector a_em doc of
        Inl x \<Rightarrow> (Inl (ModuleRaised x), [CallSelector i])
      | Inr sel \<Rightarrow>
          (if sel then
             (case process_document a_em doc of
                Inl x \<Rightarrow> (Inl (ModuleRaised x), [CallSelector i, CallProcess i])
              | Inr doc' \<Rightarrow>
                  (case run_ems (Suc i) rest doc' of
                     (r, calls) \<Rightarrow> (r, CallSelector i # CallProcess i # calls)))
           else
             (case run_ems (Suc i) rest doc of
                (r, calls) \<Rightarrow> (r, CallSelector i # calls))))"

definition process_ems ::
  "('c, 'r, 'k, 's) etk \<Rightarrow> ('r, 'k) document \<Rightarrow>
   (etk_error + (('r, 'k) document \<times> 'k)) \<times> ems_call list"
where
  "process_ems e doc =
     (case em_lst e of
        None \<Rightarrow> (Inl AttributeError, [])
      | Some ems \<Rightarrow>
          (case run_ems 0 ems doc of
             (Inl err, calls) \<Rightarrow> (Inl err, calls)
           | (Inr doc', calls) \<Rightarrow> (Inr (doc', kg doc'), calls)))"

subsection \<open>What the loop of \<open>process_ems\<close> is specified to do\<close>

text \<open>
  Written from the specification's words (section 4.5, step 1), to compare with
  \<open>run_ems\<close>: one module applied to a document processes it when its selector is true
  and leaves it alone otherwise.
\<close>

definition selected_step :: "('r, 'k) etk_module \<Rightarrow> ('r, 'k) document \<Rightarrow> ('r, 'k) document" where
  "selected_step m doc =
     (case document_selector m doc of
        Inr True \<Rightarrow> (case process_document m doc of Inr doc' \<Rightarrow> doc' | Inl _ \<Rightarrow> doc)
      | _ \<Rightarrow> doc)"

text \<open>The document as the module at position \<open>i\<close> finds it.\<close>

definition doc_at ::
  "('r, 'k) etk_module list \<Rightarrow> nat \<Rightarrow> ('r, 'k) document \<Rightarrow> ('r, 'k) document"
where
  "doc_at ems i doc = foldl (\<lambda>d m. selected_step m d) doc (take i ems)"

text \<open>
  The calls owed to the module at position \<open>i\<close>: its selector, and its
  \<open>process_document\<close> exactly when the selector returned true. Positions are counted
  from \<open>k\<close>.
\<close>

definition calls_of ::
  "nat \<Rightarrow> ('r, 'k) etk_module list \<Rightarrow> ('r, 'k) document \<Rightarrow> nat \<Rightarrow> ems_call list"
where
  "calls_of k ems doc i =
     CallSelector (k + i) #
       (if document_selector (ems ! i) (doc_at ems i doc) = Inr True
        then [CallProcess (k + i)] else [])"

subsection \<open>A small engine to run\<close>

text \<open>
  A parser that accepts two path strings, a document whose knowledge graph is a list of
  fields with their values, and three modules in the style of
  examples/knowledge\_graph/create\_kg.py: one stores a \<open>developer\<close>, one reads the
  \<open>developer\<close> field to fill \<open>lead\<close> (it needs the first to have run), and one never
  selects a document.
\<close>

definition example_parser :: "string \<Rightarrow> nat option" where
  "example_parser s =
     (if s = ''projects[*].description'' then Some 1
      else if s = ''projects[*]'' then Some 2
      else None)"

type_synonym example_kg = "(string \<times> string list) list"

definition example_engine :: "(nat, unit, example_kg, unit) etk" where
  "example_engine =
     \<lparr>parser = example_parser, parsed = Map.empty, kg_schema = (),
      em_lst = None, error_policy = Some PROCESS\<rparr>"

definition example_doc :: "(unit, example_kg) document" where
  "example_doc = \<lparr>raw = (), mime_type = None, url = ''http://ex.com/123'', kg = []\<rparr>"

definition developer_module :: "(unit, example_kg) etk_module" where
  "developer_module =
     \<lparr>document_selector = (\<lambda>d. Inr True),
      process_document = (\<lambda>d. Inr (d\<lparr>kg := (''developer'', [''Pedro'']) # kg d\<rparr>))\<rparr>"

definition lead_module :: "(unit, example_kg) etk_module" where
  "lead_module =
     \<lparr>document_selector = (\<lambda>d. Inr True),
      process_document =
        (\<lambda>d. Inr (d\<lparr>kg := (''lead'', (case map_of (kg d) ''developer'' of
                                          None \<Rightarrow> [] | Some vs \<Rightarrow> vs)) # kg d\<rparr>))\<rparr>"

definition idle_module :: "(unit, example_kg) etk_module" where
  "idle_module =
     \<lparr>document_selector = (\<lambda>d. Inr False),
      process_document = (\<lambda>d. Inr (d\<lparr>kg := (''idle'', []) # kg d\<rparr>))\<rparr>"

text \<open>
  A guarded module: it selects the documents that have a \<open>developer\<close> field, and its
  \<open>process_document\<close> raises on every other document.
\<close>

definition guarded_module :: "(unit, example_kg) etk_module" where
  "guarded_module =
     \<lparr>document_selector = (\<lambda>d. Inr (map_of (kg d) ''developer'' \<noteq> None)),
      process_document =
        (\<lambda>d. case map_of (kg d) ''developer'' of
               None \<Rightarrow> Inl ''KeyError''
             | Some vs \<Rightarrow> Inr (d\<lparr>kg := (''lead'', vs) # kg d\<rparr>))\<rparr>"

section \<open>The tokenizer's unit test (etk2/unit\_tests/test\_tokenizer.py)\<close>

text \<open>
  The test tokenizes one text, collects \<open>orth_\<close>, \<open>idx\<close> and \<open>_.full_shape\<close> of every
  token returned and asserts that the list equals \<open>expected\<close>. The newline of the
  Python literals is the character 10.
\<close>

record token_attrs =
  orth :: string
  offset :: nat
  full_shape :: string

definition test_text :: string where
  "test_text =
     ''dsa@isi.edu 32.4 -32.1 (123)-345-6789, '' @ [CHR 0x0A] @ '' '' @ [CHR 0x0A] @ ''   ''"

definition expected :: "token_attrs list" where
  "expected =
     [\<lparr>orth = ''dsa'', offset = 0, full_shape = ''xxx''\<rparr>,
      \<lparr>orth = ''@'', offset = 3, full_shape = ''@''\<rparr>,
      \<lparr>orth = ''isi'', offset = 4, full_shape = ''xxx''\<rparr>,
      \<lparr>orth = ''.'', offset = 7, full_shape = ''.''\<rparr>,
      \<lparr>orth = ''edu'', offset = 8, full_shape = ''xxx''\<rparr>,
      \<lparr>orth = ''32.4'', offset = 12, full_shape = ''dd.d''\<rparr>,
      \<lparr>orth = ''-'', offset = 17, full_shape = ''-''\<rparr>,
      \<lparr>orth = ''32.1'', offset = 18, full_shape = ''dd.d''\<rparr>,
      \<lparr>orth = ''('', offset = 23, full_shape = ''(''\<rparr>,
      \<lparr>orth = ''123'', offset = 24, full_shape = ''ddd''\<rparr>,
      \<lparr>orth = '')'', offset = 27, full_shape = '')''\<rparr>,
      \<lparr>orth = ''-'', offset = 28, full_shape = ''-''\<rparr>,
      \<lparr>orth = ''345'', offset = 29, full_shape = ''ddd''\<rparr>,
      \<lparr>orth = ''-'', offset = 32, full_shape = ''-''\<rparr>,
      \<lparr>orth = ''6789,'', offset = 33, full_shape = ''dddd,''\<rparr>,
      \<lparr>orth = [CHR 0x0A] @ '' '', offset = 39, full_shape = [CHR 0x0A] @ '' ''\<rparr>,
      \<lparr>orth = [CHR 0x0A], offset = 41, full_shape = [CHR 0x0A]\<rparr>,
      \<lparr>orth = ''   '', offset = 42, full_shape = ''   ''\<rparr>]"

text \<open>The tokens of the test as raw spans: start offset and text.\<close>

definition expected_spans :: "(nat \<times> string) list" where
  "expected_spans = map (\<lambda>t. (offset t, orth t)) expected"

section \<open>The tokenizer's contract\<close>

text \<open>
  Modelled from the spec: the class \<open>Tokenizer\<close> of etk/tokenizer.py, which is not among
  the sources (etk.py imports it, the unit test calls it). Sections 3, 4.2 and 6 of the
  specification: a token has a text, an offset and a shape; an upstream provider returns
  raw spans (start offset and text); the tokenizer computes offsets and shapes and
  re-inserts every stretch the provider left out as a token of its own; \<open>reconstruct\<close>
  concatenates the texts of the tokens in their order.
\<close>

record token =
  token_text :: string
  token_offset :: nat
  token_shape :: string

definition is_letter :: "char \<Rightarrow> bool" where
  "is_letter c = (c \<in> set (''abcdefghijklmnopqrstuvwxyz'' @ ''ABCDEFGHIJKLMNOPQRSTUVWXYZ''))"

definition is_digit :: "char \<Rightarrow> bool" where
  "is_digit c = (c \<in> set ''0123456789'')"

definition shape_char :: "char \<Rightarrow> char" where
  "shape_char c = (if is_letter c then CHR ''x'' else if is_digit c then CHR ''d'' else c)"

definition shape :: "string \<Rightarrow> string" where
  "shape s = map shape_char s"

definition make_token :: "string \<Rightarrow> nat \<Rightarrow> token" where
  "make_token s off = \<lparr>token_text = s, token_offset = off, token_shape = shape s\<rparr>"

fun fill_gaps :: "string \<Rightarrow> nat \<Rightarrow> (nat \<times> string) list \<Rightarrow> token list" where
  "fill_gaps s pos [] = (if pos < length s then [make_token (drop pos s) pos] else [])"
| "fill_gaps s pos ((start, t) # spans) =
     (if pos < start then [make_token (take (start - pos) (drop pos s)) pos] else []) @
     make_token t start # fill_gaps s (start + length t) spans"

definition tokenize :: "(string \<Rightarrow> (nat \<times> string) list) \<Rightarrow> string \<Rightarrow> token list" where
  "tokenize provider s = fill_gaps s 0 (provider s)"

definition reconstruct :: "token list \<Rightarrow> string" where
  "reconstruct tokens = concat (map token_text tokens)"

text \<open>
  What the provider owes: its spans are stretches of the text, each with the text found
  at its start offset, in order and without overlap, from position \<open>pos\<close> on.
\<close>

fun raw_spans_of :: "string \<Rightarrow> nat \<Rightarrow> (nat \<times> string) list \<Rightarrow> bool" where
  "raw_spans_of s pos [] = True"
| "raw_spans_of s pos ((start, t) # spans) =
     (pos \<le> start \<and> start + length t \<le> length s \<and>
      take (length t) (drop start s) = t \<and>
      raw_spans_of s (start + length t) spans)"

text \<open>
  The stretches of the text that the spans leave out, each with its start: before the
  first span, between two spans, and after the last one.
\<close>

fun gaps :: "string \<Rightarrow> nat \<Rightarrow> (nat \<times> string) list \<Rightarrow> (nat \<times> string) list" where
  "gaps s pos [] = (if pos < length s then [(pos, drop pos s)] else [])"
| "gaps s pos ((start, t) # spans) =
     (if pos < start then [(pos, take (start - pos) (drop pos s))] else []) @
     gaps s (start + length t) spans"


section \<open>Properties of the engine\<close>

subsection \<open>The error policy\<close>

lemma init_error_policy_result:
  "error_policy (init_error_policy s e) =
     Some (if lower s = ''raise_error'' then RAISE else PROCESS)"
  by (simp add: init_error_policy_def Let_def)

lemma init_error_policy_keeps:
  "parsed (init_error_policy s e) = parsed e"
  "parser (init_error_policy s e) = parser e"
  "em_lst (init_error_policy s e) = em_lst e"
  by (simp_all add: init_error_policy_def Let_def)

text \<open>
  C2. The constructor run on the four policy names (no modules given). The names
  \<open>throw_extraction\<close> and \<open>throw_document\<close> are meant to select
  \<open>THROW_EXTRACTION\<close> and \<open>THROW_DOCUMENT\<close>; the \<open>else\<close> of the last \<open>if\<close>
  overwrites both with \<open>PROCESS\<close>. Only \<open>raise_error\<close> selects its policy; every
  other string ends with \<open>PROCESS\<close>.
\<close>

theorem ETK_init_policy_names:
  "map_sum id error_policy (ETK_init prs disc sch PyNone ''throw_extraction'') = Inr (Some PROCESS) \<and>
   map_sum id error_policy (ETK_init prs disc sch PyNone ''throw_document'') = Inr (Some PROCESS) \<and>
   map_sum id error_policy (ETK_init prs disc sch PyNone ''raise_error'') = Inr (Some RAISE) \<and>
   map_sum id error_policy (ETK_init prs disc sch PyNone ''process'') = Inr (Some PROCESS)"
  by (simp add: ETK_init_def init_modules_def init_error_policy_def Let_def lower_def lower_char_def)

subsection \<open>Module order\<close>

lemma load_ems_found:
  "discover (strip (CHR ''/'') (strip (CHR ''.'') path)) = Some (m # ms) \<Longrightarrow>
   load_ems discover path = Inr (m # ms)"
  by (simp add: load_ems_def topological_sort_def Let_def)

text \<open>
  C3. Two modules are registered with the dependent one first: \<open>lead_module\<close> reads the
  field that \<open>developer_module\<close> writes. Loading keeps the registration order, and
  \<open>process_ems\<close> runs \<open>lead_module\<close> before \<open>developer_module\<close>: the \<open>lead\<close> field
  stays empty.
\<close>

theorem load_ems_keeps_registration_order:
  "\<exists>e d. ETK_init example_parser (\<lambda>_. Some [lead_module, developer_module]) ()
            (PyStr ''./modules/'') ''process'' = Inr e \<and>
         em_lst e = Some [lead_module, developer_module] \<and>
         process_ems e example_doc =
           (Inr (d, kg d), [CallSelector 0, CallProcess 0, CallSelector 1, CallProcess 1]) \<and>
         kg d = [(''developer'', [''Pedro'']), (''lead'', [])]"
  by (simp add: ETK_init_def init_modules_def init_error_policy_def Let_def load_ems_def
      topological_sort_def process_ems_def lead_module_def developer_module_def example_doc_def)

subsection \<open>The cache of compiled paths\<close>

lemma parsed_getitem_hit: "parsed e p = Some c \<Longrightarrow> parsed_getitem e p = (Inr c, e)"
  by (simp add: parsed_getitem_def)

lemma parse_json_path_hit: "parsed e p = Some c \<Longrightarrow> parse_json_path e p = (Inr c, e)"
  by (simp add: parse_json_path_def parsed_getitem_def)

lemma parse_json_path_miss_invalid:
  "parsed e p = None \<Longrightarrow> parser e p = None \<Longrightarrow>
   parse_json_path e p = (Inl (InvalidJsonPathError ''Invalid Json Path''), e)"
  by (simp add: parse_json_path_def)

lemma parse_json_path_miss_valid:
  "parsed e p = None \<Longrightarrow> parser e p = Some c \<Longrightarrow>
   parse_json_path e p = (Inr c, e\<lparr>parsed := (parsed e)(p \<mapsto> c)\<rparr>)"
  by (simp add: parse_json_path_def parsed_getitem_def)

lemma parser_step: "parser (snd (parse_json_path e q)) = parser e"
  by (auto simp: parse_json_path_def parsed_getitem_def split: option.splits)

lemma parser_after_calls: "parser (after_calls e qs) = parser e"
  by (induction qs arbitrary: e) (simp_all add: parser_step)

text \<open>Every entry of the cache is what the parser returns for its key.\<close>

lemma cache_sound_step:
  assumes "\<And>k c. parsed e k = Some c \<Longrightarrow> parser e k = Some c"
    and "parsed (snd (parse_json_path e q)) k = Some c"
  shows "parser e k = Some c"
  using assms by (auto simp: parse_json_path_def parsed_getitem_def split: option.splits if_splits)

lemma cache_sound_after_calls:
  assumes "\<And>k c. parsed e k = Some c \<Longrightarrow> parser e k = Some c"
    and "parsed (after_calls e qs) k = Some c"
  shows "parser e k = Some c"
  using assms
proof (induction qs arbitrary: e)
  case Nil
  then show ?case by simp
next
  case (Cons q qs)
  let ?e' = "snd (parse_json_path e q)"
  have sound': "\<And>k c. parsed ?e' k = Some c \<Longrightarrow> parser ?e' k = Some c"
    using cache_sound_step[of e q] Cons.prems(1) by (simp add: parser_step)
  have "parser ?e' k = Some c"
    using Cons.IH[of ?e', OF sound'] Cons.prems(2) by simp
  then show ?case by (simp add: parser_step)
qed

text \<open>An entry of the cache is never removed or replaced.\<close>

lemma cache_keeps_step:
  "parsed e p = Some c \<Longrightarrow> parsed (snd (parse_json_path e q)) p = Some c"
  by (auto simp: parse_json_path_def parsed_getitem_def split: option.splits)

lemma cache_keeps_after_calls:
  "parsed e p = Some c \<Longrightarrow> parsed (after_calls e qs) p = Some c"
  by (induction qs arbitrary: e) (simp_all add: cache_keeps_step)

lemma ETK_init_fresh:
  "ETK_init prs disc sch mods pol = Inr e \<Longrightarrow> parsed e = Map.empty \<and> parser e = prs"
  by (auto simp: ETK_init_def init_modules_def init_error_policy_keeps Let_def
      split: sum.splits modules_arg.splits if_splits)

lemma fresh_cache_sound:
  assumes "ETK_init prs disc sch mods pol = Inr e0"
    and "parsed (after_calls e0 qs) k = Some c"
  shows "prs k = Some c"
proof -
  have fresh: "parsed e0 = Map.empty" "parser e0 = prs"
    using ETK_init_fresh[OF assms(1)] by simp_all
  have "parser e0 k = Some c"
    by (rule cache_sound_after_calls[of e0 qs k c]) (simp_all add: fresh assms(2))
  then show ?thesis by (simp add: fresh)
qed

text \<open>
  C4. On an engine as the constructor returns it, and after any calls of
  \<open>parse_json_path\<close> (with \<open>P\<close> itself among them or not), a call with a string \<open>P\<close>
  that the parser rejects raises \<open>InvalidJsonPathError\<close> and leaves the engine as it
  was: the first attempt and every later one end the same way.
\<close>

theorem parse_json_path_invalid_always_raises:
  assumes "ETK_init prs disc sch mods pol = Inr e0"
    and "prs P = None"
  shows "parse_json_path (after_calls e0 qs) P =
           (Inl (InvalidJsonPathError ''Invalid Json Path''), after_calls e0 qs)"
proof -
  have "parsed (after_calls e0 qs) P = None"
  proof (cases "parsed (after_calls e0 qs) P")
    case None
    then show ?thesis .
  next
    case (Some c)
    then have "prs P = Some c" by (rule fresh_cache_sound[OF assms(1)])
    with assms(2) show ?thesis by simp
  qed
  moreover have "parser (after_calls e0 qs) P = None"
    using ETK_init_fresh[OF assms(1)] assms(2) by (simp add: parser_after_calls)
  ultimately show ?thesis by (rule parse_json_path_miss_invalid)
qed

theorem parse_json_path_invalid_always_raises_witness:
  "ETK_init example_parser (\<lambda>_. None) () PyNone ''process'' = Inr example_engine \<and>
   example_parser ''projects[*'' = None \<and>
   parse_json_path example_engine ''projects[*'' =
     (Inl (InvalidJsonPathError ''Invalid Json Path''), example_engine) \<and>
   parse_json_path (after_calls example_engine [''projects[*'', ''projects[*]'', ''projects[*'']) ''projects[*'' =
     (Inl (InvalidJsonPathError ''Invalid Json Path''),
      after_calls example_engine [''projects[*'', ''projects[*]'', ''projects[*''])"
proof -
  have h1: "ETK_init example_parser (\<lambda>_. None) () PyNone ''process'' = Inr example_engine"
    by (simp add: ETK_init_def init_modules_def init_error_policy_def Let_def lower_def
        lower_char_def example_engine_def)
  have h2: "example_parser ''projects[*'' = None"
    by (simp add: example_parser_def)
  show ?thesis
    using h1 h2 parse_json_path_invalid_always_raises[OF h1 h2, of "[]"]
      parse_json_path_invalid_always_raises[OF h1 h2, of "[''projects[*'', ''projects[*]'', ''projects[*'']"]
    by simp
qed

text \<open>
  C5. On an engine as the constructor returns it, a call with a string \<open>p\<close> that the
  parser compiles to \<open>c\<close> returns \<open>c\<close>, whatever calls came before; from then on \<open>c\<close>
  stays in the cache under \<open>p\<close>, and a later call with \<open>p\<close> returns \<open>c\<close> and leaves
  the engine unchanged whatever the parser would do: the parser is not consulted again.
\<close>

theorem parse_json_path_returns_cached:
  assumes "ETK_init prs disc sch mods pol = Inr e0"
    and "prs p = Some c"
  shows "fst (parse_json_path (after_calls e0 qs1) p) = Inr c \<and>
         (let e2 = after_calls (snd (parse_json_path (after_calls e0 qs1) p)) qs2
          in parsed e2 p = Some c \<and>
             (\<forall>prs'. parse_json_path (e2\<lparr>parser := prs'\<rparr>) p = (Inr c, e2\<lparr>parser := prs'\<rparr>)))"
proof -
  let ?e1 = "after_calls e0 qs1"
  have prs1: "parser ?e1 p = Some c"
    using ETK_init_fresh[OF assms(1)] assms(2) by (simp add: parser_after_calls)
  have first: "fst (parse_json_path ?e1 p) = Inr c \<and> parsed (snd (parse_json_path ?e1 p)) p = Some c"
  proof (cases "parsed ?e1 p")
    case None
    then show ?thesis using parse_json_path_miss_valid[OF None prs1] by simp
  next
    case (Some c')
    then have "prs p = Some c'" by (rule fresh_cache_sound[OF assms(1)])
    with assms(2) have "c' = c" by simp
    with Some show ?thesis using parse_json_path_hit[of ?e1 p c] by simp
  qed
  let ?e2 = "after_calls (snd (parse_json_path ?e1 p)) qs2"
  have kept: "parsed ?e2 p = Some c"
    using first by (simp add: cache_keeps_after_calls)
  have "\<And>prs'. parse_json_path (?e2\<lparr>parser := prs'\<rparr>) p = (Inr c, ?e2\<lparr>parser := prs'\<rparr>)"
    by (rule parse_json_path_hit) (simp add: kept)
  with first kept show ?thesis by (simp add: Let_def)
qed

theorem parse_json_path_returns_cached_witness:
  "ETK_init example_parser (\<lambda>_. None) () PyNone ''process'' = Inr example_engine \<and>
   example_parser ''projects[*]'' = Some 2 \<and>
   fst (parse_json_path example_engine ''projects[*]'') = Inr 2 \<and>
   fst (parse_json_path (snd (parse_json_path example_engine ''projects[*]'')) ''projects[*]'') = Inr 2 \<and>
   parse_json_path
     ((after_calls (snd (parse_json_path example_engine ''projects[*]'')) [''projects[*].description''])
        \<lparr>parser := (\<lambda>_. None)\<rparr>) ''projects[*]'' =
     (Inr 2, (after_calls (snd (parse_json_path example_engine ''projects[*]'')) [''projects[*].description''])
        \<lparr>parser := (\<lambda>_. None)\<rparr>)"
proof -
  have h1: "ETK_init example_parser (\<lambda>_. None) () PyNone ''process'' = Inr example_engine"
    by (simp add: ETK_init_def init_modules_def init_error_policy_def Let_def lower_def
        lower_char_def example_engine_def)
  have h2: "example_parser ''projects[*]'' = Some 2"
    by (simp add: example_parser_def)
  show ?thesis
    using h1 h2 parse_json_path_returns_cached[OF h1 h2, of "[]" "[''projects[*].description'']"]
      parse_json_path_returns_cached[OF h1 h2, of "[''projects[*]'']" "[]"]
    by (simp add: Let_def)
qed

text \<open>
  C9. A call with a string that is not in the cache: when the parser rejects it, the call
  raises \<open>InvalidJsonPathError\<close> and the engine, its cache included, is unchanged; when
  the parser compiles it, the call returns the compiled value and the cache gains the
  entry for that string and no other.
\<close>

theorem parse_json_path_cache_update:
  assumes "parsed e P = None"
  shows "(parser e P = None \<longrightarrow>
            parse_json_path e P = (Inl (InvalidJsonPathError ''Invalid Json Path''), e)) \<and>
         (\<forall>c. parser e P = Some c \<longrightarrow>
            parse_json_path e P = (Inr c, e\<lparr>parsed := (parsed e)(P \<mapsto> c)\<rparr>) \<and>
            dom (parsed (snd (parse_json_path e P))) = insert P (dom (parsed e)) \<and>
            (\<forall>q. q \<noteq> P \<longrightarrow> parsed (snd (parse_json_path e P)) q = parsed e q))"
  using assms by (auto simp: parse_json_path_def parsed_getitem_def)

theorem parse_json_path_cache_update_witness:
  "parsed example_engine ''projects[*'' = None \<and> parser example_engine ''projects[*'' = None \<and>
   parse_json_path example_engine ''projects[*'' =
     (Inl (InvalidJsonPathError ''Invalid Json Path''), example_engine) \<and>
   parsed example_engine ''projects[*]'' = None \<and> parser example_engine ''projects[*]'' = Some 2 \<and>
   parse_json_path example_engine ''projects[*]'' =
     (Inr 2, example_engine\<lparr>parsed := [''projects[*]'' \<mapsto> 2]\<rparr>) \<and>
   dom (parsed (snd (parse_json_path example_engine ''projects[*]''))) = {''projects[*]''}"
proof -
  have h1: "parsed example_engine ''projects[*'' = None" by (simp add: example_engine_def)
  have h2: "parsed example_engine ''projects[*]'' = None" by (simp add: example_engine_def)
  have p1: "parser example_engine ''projects[*'' = None"
    by (simp add: example_engine_def example_parser_def)
  have p2: "parser example_engine ''projects[*]'' = Some 2"
    by (simp add: example_engine_def example_parser_def)
  have e: "parsed example_engine = Map.empty" by (simp add: example_engine_def)
  show ?thesis
    using h1 h2 p1 p2 e parse_json_path_cache_update[OF h1] parse_json_path_cache_update[OF h2]
    by simp
qed

text \<open>
  C10. The constructor called without modules returns an engine, on which \<open>em_lst\<close> is
  unassigned; \<open>process_ems\<close> on that engine raises \<open>AttributeError\<close> for every document,
  before any module is called.
\<close>

theorem ETK_init_without_modules_has_no_em_lst:
  "\<exists>e. ETK_init prs disc sch PyNone pol = Inr e \<and> em_lst e = None \<and>
       (\<forall>doc. process_ems e doc = (Inl AttributeError, []))"
  by (simp add: ETK_init_def init_modules_def init_error_policy_keeps process_ems_def Let_def)

subsection \<open>Running the modules\<close>

lemma doc_at_0: "doc_at ems 0 doc = doc"
  by (simp add: doc_at_def)

lemma doc_at_Cons_Suc: "doc_at (m # ems) (Suc i) doc = doc_at ems i (selected_step m doc)"
  by (simp add: doc_at_def)

lemma calls_of_Cons_Suc:
  "calls_of k (m # ems) doc (Suc i) = calls_of (Suc k) ems (selected_step m doc) i"
  by (simp add: calls_of_def doc_at_Cons_Suc)

lemma upt_0_Suc_map: "[0..<Suc n] = 0 # map Suc [0..<n]"
  by (simp only: map_Suc_upt upt_conv_Cons[of 0 "Suc n"] zero_less_Suc)

text \<open>
  The calls of the run return: the selector of every module on the document it is
  given, and \<open>process_document\<close> where that selector returned true.
\<close>

lemma run_ems_calls_return:
  assumes "\<forall>i<length ems.
             (\<exists>b. document_selector (ems ! i) (doc_at ems i doc) = Inr b) \<and>
             (document_selector (ems ! i) (doc_at ems i doc) = Inr True \<longrightarrow>
                (\<exists>d'. process_document (ems ! i) (doc_at ems i doc) = Inr d'))"
  shows "run_ems k ems doc =
           (Inr (doc_at ems (length ems) doc),
            concat (map (calls_of k ems doc) [0..<length ems]))"
  using assms
proof (induction ems arbitrary: k doc)
  case Nil
  then show ?case by (simp add: doc_at_def)
next
  case (Cons m ems)
  have here: "(\<exists>b. document_selector m doc = Inr b) \<and>
              (document_selector m doc = Inr True \<longrightarrow> (\<exists>d'. process_document m doc = Inr d'))"
    using Cons.prems[rule_format, of 0] by (simp add: doc_at_0)
  from here obtain b where b: "document_selector m doc = Inr b" by blast
  have rest: "\<forall>i<length ems.
             (\<exists>b. document_selector (ems ! i) (doc_at ems i (selected_step m doc)) = Inr b) \<and>
             (document_selector (ems ! i) (doc_at ems i (selected_step m doc)) = Inr True \<longrightarrow>
                (\<exists>d'. process_document (ems ! i) (doc_at ems i (selected_step m doc)) = Inr d'))"
  proof (intro allI impI)
    fix i assume "i < length ems"
    then have "Suc i < length (m # ems)" by simp
    from Cons.prems[rule_format, OF this]
    show "(\<exists>b. document_selector (ems ! i) (doc_at ems i (selected_step m doc)) = Inr b) \<and>
          (document_selector (ems ! i) (doc_at ems i (selected_step m doc)) = Inr True \<longrightarrow>
             (\<exists>d'. process_document (ems ! i) (doc_at ems i (selected_step m doc)) = Inr d'))"
      by (simp add: doc_at_Cons_Suc)
  qed
  have IH: "run_ems (Suc k) ems (selected_step m doc) =
          (Inr (doc_at ems (length ems) (selected_step m doc)),
           concat (map (calls_of (Suc k) ems (selected_step m doc)) [0..<length ems]))"
    by (rule Cons.IH[OF rest])
  have head: "calls_of k (m # ems) doc 0 = CallSelector k # (if b then [CallProcess k] else [])"
    by (simp add: calls_of_def doc_at_0 b)
  have tail: "map (calls_of k (m # ems) doc) (map Suc [0..<length ems]) =
              map (calls_of (Suc k) ems (selected_step m doc)) [0..<length ems]"
    by (simp add: calls_of_Cons_Suc)
  have idx: "[0..<length (m # ems)] = 0 # map Suc [0..<length ems]"
    by (simp only: length_Cons upt_0_Suc_map)
  have calls: "concat (map (calls_of k (m # ems) doc) [0..<length (m # ems)]) =
        (CallSelector k # (if b then [CallProcess k] else [])) @
        concat (map (calls_of (Suc k) ems (selected_step m doc)) [0..<length ems])"
    by (simp only: idx list.map concat.simps head tail)
  have run: "run_ems k (m # ems) doc =
        (Inr (doc_at ems (length ems) (selected_step m doc)),
         (CallSelector k # (if b then [CallProcess k] else [])) @
         concat (map (calls_of (Suc k) ems (selected_step m doc)) [0..<length ems]))"
  proof (cases b)
    case True
    with here b obtain d' where d': "process_document m doc = Inr d'" by auto
    have "selected_step m doc = d'" by (simp add: selected_step_def b d' True)
    with IH show ?thesis by (simp add: b d' True)
  next
    case False
    have "selected_step m doc = doc" by (simp add: selected_step_def b False)
    with IH show ?thesis by (simp add: b False)
  qed
  show ?case using calls run by (simp add: doc_at_Cons_Suc)
qed

text \<open>
  C8. On an engine whose module list is \<open>ems\<close>, and when the calls that the run makes
  into the modules return (the selector of every module, and \<open>process_document\<close> of the
  modules whose selector returned true), \<open>process_ems\<close> calls the selector of every
  module once, in the order of the list, each on the document as the modules before it
  left it, calls \<open>process_document\<close> of a module right after its selector exactly when
  that selector returned true, makes no call of \<open>process_document\<close> for a module whose
  selector returned false, and returns the document after the last module together with
  that document's \<open>kg\<close>.
\<close>

theorem process_ems_calls_selected_modules:
  assumes "em_lst e = Some ems"
    and "\<forall>i<length ems.
           (\<exists>b. document_selector (ems ! i) (doc_at ems i doc) = Inr b) \<and>
           (document_selector (ems ! i) (doc_at ems i doc) = Inr True \<longrightarrow>
              (\<exists>d'. process_document (ems ! i) (doc_at ems i doc) = Inr d'))"
  shows "process_ems e doc =
           (Inr (doc_at ems (length ems) doc, kg (doc_at ems (length ems) doc)),
            concat (map (calls_of 0 ems doc) [0..<length ems]))"
  using assms(1) run_ems_calls_return[OF assms(2), of 0]
  by (simp add: process_ems_def)

theorem process_ems_calls_selected_modules_witness:
  "em_lst (example_engine\<lparr>em_lst := Some [guarded_module, developer_module, idle_module,
                                           guarded_module]\<rparr>) =
     Some [guarded_module, developer_module, idle_module, guarded_module] \<and>
   document_selector guarded_module example_doc = Inr False \<and>
   process_document guarded_module example_doc = Inl ''KeyError'' \<and>
   document_selector developer_module example_doc = Inr True \<and>
   process_ems (example_engine\<lparr>em_lst := Some [guarded_module, developer_module, idle_module,
                                                guarded_module]\<rparr>) example_doc =
     (Inr (example_doc\<lparr>kg := [(''lead'', [''Pedro'']), (''developer'', [''Pedro''])]\<rparr>,
           [(''lead'', [''Pedro'']), (''developer'', [''Pedro''])]),
      [CallSelector 0, CallSelector 1, CallProcess 1, CallSelector 2, CallSelector 3,
       CallProcess 3])"
proof -
  let ?ems = "[guarded_module, developer_module, idle_module, guarded_module]"
  let ?d1 = "example_doc\<lparr>kg := [(''developer'', [''Pedro''])]\<rparr>"
  let ?d2 = "example_doc\<lparr>kg := [(''lead'', [''Pedro'']), (''developer'', [''Pedro''])]\<rparr>"
  have h1: "em_lst (example_engine\<lparr>em_lst := Some ?ems\<rparr>) = Some ?ems" by simp
  have g0: "document_selector guarded_module example_doc = Inr False"
    by (simp add: guarded_module_def example_doc_def)
  have g0': "process_document guarded_module example_doc = Inl ''KeyError''"
    by (simp add: guarded_module_def example_doc_def)
  have dv: "document_selector developer_module example_doc = Inr True"
    by (simp add: developer_module_def)
  have dv': "process_document developer_module example_doc = Inr ?d1"
    by (simp add: developer_module_def example_doc_def)
  have i2: "document_selector idle_module ?d1 = Inr False"
    by (simp add: idle_module_def)
  have g3: "document_selector guarded_module ?d1 = Inr True"
    by (simp add: guarded_module_def example_doc_def)
  have g3': "process_document guarded_module ?d1 = Inr ?d2"
    by (simp add: guarded_module_def example_doc_def)
  have s0: "selected_step guarded_module example_doc = example_doc"
    by (simp add: selected_step_def g0)
  have s1: "selected_step developer_module example_doc = ?d1"
    by (simp add: selected_step_def dv dv')
  have s2: "selected_step idle_module ?d1 = ?d1"
    by (simp add: selected_step_def i2)
  have s3: "selected_step guarded_module ?d1 = ?d2"
    by (simp add: selected_step_def g3 g3')
  have a0: "doc_at ?ems 0 example_doc = example_doc" by (simp add: doc_at_def)
  have a1: "doc_at ?ems (Suc 0) example_doc = example_doc" by (simp add: doc_at_def s0)
  have a2: "doc_at ?ems (Suc (Suc 0)) example_doc = ?d1" by (simp add: doc_at_def s0 s1)
  have a3: "doc_at ?ems (Suc (Suc (Suc 0))) example_doc = ?d1"
    by (simp add: doc_at_def s0 s1 s2)
  have a4: "doc_at ?ems (length ?ems) example_doc = ?d2"
    by (simp add: doc_at_def s0 s1 s2 s3)
  have lt4: "\<And>i. i < length ?ems \<Longrightarrow>
               i = 0 \<or> i = Suc 0 \<or> i = Suc (Suc 0) \<or> i = Suc (Suc (Suc 0))"
    by auto
  have h2: "\<forall>i<length ?ems.
           (\<exists>b. document_selector (?ems ! i) (doc_at ?ems i example_doc) = Inr b) \<and>
           (document_selector (?ems ! i) (doc_at ?ems i example_doc) = Inr True \<longrightarrow>
              (\<exists>d'. process_document (?ems ! i) (doc_at ?ems i example_doc) = Inr d'))"
  proof (intro allI impI)
    fix i assume "i < length ?ems"
    from lt4[OF this]
    show "(\<exists>b. document_selector (?ems ! i) (doc_at ?ems i example_doc) = Inr b) \<and>
          (document_selector (?ems ! i) (doc_at ?ems i example_doc) = Inr True \<longrightarrow>
             (\<exists>d'. process_document (?ems ! i) (doc_at ?ems i example_doc) = Inr d'))"
    proof (elim disjE)
      assume "i = 0"
      then show ?thesis by (auto simp: a0 g0)
    next
      assume "i = Suc 0"
      then show ?thesis by (auto simp: a1 dv dv')
    next
      assume "i = Suc (Suc 0)"
      then show ?thesis by (auto simp: a2 i2)
    next
      assume "i = Suc (Suc (Suc 0))"
      then show ?thesis by (auto simp: a3 g3 g3')
    qed
  qed
  have idx: "[0..<length ?ems] = [0, Suc 0, Suc (Suc 0), Suc (Suc (Suc 0))]"
    by (simp add: upt_rec)
  have c0: "calls_of 0 ?ems example_doc 0 = [CallSelector 0]"
    by (simp add: calls_of_def a0 g0)
  have c1: "calls_of 0 ?ems example_doc (Suc 0) = [CallSelector 1, CallProcess 1]"
    by (simp add: calls_of_def a1 dv)
  have c2: "calls_of 0 ?ems example_doc (Suc (Suc 0)) = [CallSelector 2]"
    by (simp add: calls_of_def a2 i2)
  have c3: "calls_of 0 ?ems example_doc (Suc (Suc (Suc 0))) = [CallSelector 3, CallProcess 3]"
    by (simp add: calls_of_def a3 g3)
  have calls: "concat (map (calls_of 0 ?ems example_doc) [0..<length ?ems]) =
      [CallSelector 0, CallSelector 1, CallProcess 1, CallSelector 2, CallSelector 3,
       CallProcess 3]"
    by (simp only: idx list.map concat.simps c0 c1 c2 c3 append.simps)
  have k: "kg ?d2 = [(''lead'', [''Pedro'']), (''developer'', [''Pedro''])]"
    by simp
  from process_ems_calls_selected_modules[OF h1 h2]
  have "process_ems (example_engine\<lparr>em_lst := Some ?ems\<rparr>) example_doc =
     (Inr (?d2, [(''lead'', [''Pedro'']), (''developer'', [''Pedro''])]),
      [CallSelector 0, CallSelector 1, CallProcess 1, CallSelector 2, CallSelector 3,
       CallProcess 3])"
    by (simp only: a4 calls k)
  with h1 g0 g0' dv show ?thesis by simp
qed

section \<open>Properties of the tokenizer\<close>

subsection \<open>The contract\<close>

lemma span_splits_text:
  assumes "pos \<le> start" and "take (length t) (drop start s) = t"
  shows "take (start - pos) (drop pos s) @ t @ drop (start + length t) s = drop pos s"
proof -
  have "drop start s = t @ drop (start + length t) s"
    using assms(2) append_take_drop_id[of "length t" "drop start s"]
    by (simp add: add.commute)
  moreover have "drop pos s = take (start - pos) (drop pos s) @ drop start s"
    using assms(1) append_take_drop_id[of "start - pos" "drop pos s"] by simp
  ultimately show ?thesis by simp
qed

lemma fill_gaps_concat:
  "raw_spans_of s pos spans \<Longrightarrow> concat (map token_text (fill_gaps s pos spans)) = drop pos s"
proof (induction spans arbitrary: pos)
  case Nil
  then show ?case by (simp add: make_token_def)
next
  case (Cons sp spans)
  obtain start t where sp: "sp = (start, t)" by (cases sp)
  from Cons.prems sp have p: "pos \<le> start" "take (length t) (drop start s) = t"
    "raw_spans_of s (start + length t) spans" by simp_all
  have IH: "concat (map token_text (fill_gaps s (start + length t) spans)) =
            drop (start + length t) s"
    by (rule Cons.IH[OF p(3)])
  show ?case
  proof (cases "pos < start")
    case True
    then show ?thesis using span_splits_text[OF p(1) p(2)] IH by (simp add: sp make_token_def)
  next
    case False
    with p(1) have "pos = start" by simp
    then show ?thesis using span_splits_text[OF p(1) p(2)] IH by (simp add: sp make_token_def)
  qed
qed

text \<open>
  C1. For every text, and every provider whose spans for that text are stretches of it in
  order, \<open>reconstruct\<close> applied to the tokens of \<open>tokenize\<close> gives the text back. A
  provider that returns no span at all (as for the empty text, or for a text of
  whitespace only) is among them, and so is one that returns the tokens of the unit
  test as its spans.
\<close>

theorem reconstruct_tokenize:
  assumes "raw_spans_of s 0 (provider s)"
  shows "reconstruct (tokenize provider s) = s"
  using fill_gaps_concat[OF assms] by (simp add: reconstruct_def tokenize_def)

theorem reconstruct_tokenize_witness:
  "raw_spans_of ''32.4 -32.1'' 0 [(0, ''32.4''), (5, ''-''), (6, ''32.1'')] \<and>
   reconstruct (tokenize (\<lambda>_. [(0, ''32.4''), (5, ''-''), (6, ''32.1'')]) ''32.4 -32.1'') =
     ''32.4 -32.1'' \<and>
   raw_spans_of ''   '' 0 [] \<and> reconstruct (tokenize (\<lambda>_. []) ''   '') = ''   '' \<and>
   raw_spans_of [] 0 [] \<and> reconstruct (tokenize (\<lambda>_. []) []) = [] \<and>
   raw_spans_of test_text 0 (map (\<lambda>t. (offset t, orth t)) expected) \<and>
   reconstruct (tokenize (\<lambda>_. map (\<lambda>t. (offset t, orth t)) expected) test_text) = test_text"
proof -
  have h: "raw_spans_of test_text 0 (map (\<lambda>t. (offset t, orth t)) expected)"
    by (simp add: expected_def test_text_def)
  show ?thesis
    using h reconstruct_tokenize[of "''32.4 -32.1''" "\<lambda>_. [(0, ''32.4''), (5, ''-''), (6, ''32.1'')]"]
      reconstruct_tokenize[of "''   ''" "\<lambda>_. []"] reconstruct_tokenize[of "[]" "\<lambda>_. []"]
      reconstruct_tokenize[of test_text "\<lambda>_. map (\<lambda>t. (offset t, orth t)) expected"]
    by simp
qed







subsection \<open>The unit test's expected tokens\<close>

text \<open>
  The tokens that the unit test expects are stretches of its text in order, and their
  shapes are the shapes of the contract. They leave four single spaces of the text out,
  which the test does not expect as tokens: the list of the test is not what the
  contract above yields for its text.
\<close>

lemma unit_test_expected_tokens:
  "raw_spans_of test_text 0 expected_spans \<and>
   map full_shape expected = map (\<lambda>t. shape (orth t)) expected \<and>
   gaps test_text 0 expected_spans = [(11, '' ''), (16, '' ''), (22, '' ''), (38, '' '')] \<and>
   concat (map orth expected) \<noteq> test_text \<and>
   length expected = 18 \<and> length (tokenize (\<lambda>_. expected_spans) test_text) = 22"
  by (simp add: expected_spans_def expected_def test_text_def tokenize_def shape_def
      shape_char_def is_letter_def is_digit_def)

end
